theory Spec2Isabelle
  imports Main "HOL-Library.Char_ord" "HOL-Library.List_Lexorder" "HOL-Library.Word"
begin

section \<open>The attribute schema: \<open>std::map<std::string, std::size_t>\<close>\<close>

text \<open>
  \<open>include/mapnik/feature.hpp\<close> declares \<open>key_type\<close> as \<open>std::string\<close> and \<open>map_type\<close> as
  \<open>std::map<key_type, std::size_t>\<close>. A \<open>std::map\<close> holds at most one entry per key and
  is traversed from \<open>begin()\<close> to \<open>end()\<close> in ascending key order, whatever the order of
  the insertions was. It is modelled by the list of its entries in traversal order. The
  order on \<open>std::string\<close> is the lexicographic order on bytes, which is the order of
  \<open>char list\<close> given by \<open>Char_ord\<close> and \<open>List_Lexorder\<close>. A \<open>std::size_t\<close> slot is a
  \<open>nat\<close>: the only values stored are sizes of the map itself.
\<close>

type_synonym key_type = string
type_synonym map_type = "(key_type \<times> nat) list"

text \<open>The representation invariant of a \<open>std::map\<close>: keys strictly ascending.\<close>

definition map_inv :: "map_type \<Rightarrow> bool" where
  "map_inv m = sorted_wrt (<) (map fst m)"

text \<open>\<open>m.find(k)\<close>: the entry with key \<open>k\<close>, or \<open>m.end()\<close> (here \<open>None\<close>).\<close>

fun map_find :: "key_type \<Rightarrow> map_type \<Rightarrow> nat option" where
  "map_find k [] = None"
| "map_find k ((k', v) # m) = (if k = k' then Some v else map_find k m)"

text \<open>
  \<open>m.insert(std::make_pair(k, v))\<close>: walks to the position of \<open>k\<close> in key order; a new
  entry is linked in there, and when an entry with an equivalent key is met the
  container is left as it is.
\<close>

fun map_insert :: "key_type \<times> nat \<Rightarrow> map_type \<Rightarrow> map_type" where
  "map_insert (k, v) [] = [(k, v)]"
| "map_insert (k, v) ((k', v') # m) =
     (if k < k' then (k, v) # (k', v') # m
      else if k' < k then (k', v') # map_insert (k, v) m
      else (k', v') # m)"

definition map_size :: "map_type \<Rightarrow> nat" where
  "map_size m = length m"

section \<open>\<open>class context\<close>\<close>

record "context" =
  mapping :: map_type

definition context_new :: "context" where
  "context_new = \<lparr>mapping = []\<rparr>"

text \<open>\<open>void push(key_type const& name)\<close>\<close>

definition push :: "key_type \<Rightarrow> context \<Rightarrow> context" where
  "push name c = c\<lparr>mapping := map_insert (name, map_size (mapping c)) (mapping c)\<rparr>"

text \<open>\<open>std::size_t size() const\<close>\<close>

definition context_size :: "context \<Rightarrow> nat" where
  "context_size c = map_size (mapping c)"

text \<open>The entries visited from \<open>begin()\<close> to \<open>end()\<close>.\<close>

definition context_entries :: "context \<Rightarrow> (key_type \<times> nat) list" where
  "context_entries c = mapping c"

text \<open>A caller's run of \<open>push\<close> calls, first name first.\<close>

fun push_all :: "key_type list \<Rightarrow> context \<Rightarrow> context" where
  "push_all [] c = c"
| "push_all (name # names) c = push_all names (push name c)"

section \<open>\<open>class feature_impl\<close>\<close>

text \<open>
  A \<open>context_ptr\<close> is a \<open>boost::shared_ptr<context>\<close>: several features and the
  producer hold the same context, and a \<open>push\<close> through one holder is seen by all. The
  contexts therefore live in a store indexed by address. Every address holds a context:
  a null \<open>context_ptr\<close> is not an input of any operation below.

  \<open>mapnik::value\<close> (\<open>value.hpp\<close>), \<open>geometry_type\<close> (\<open>geometry.hpp\<close>), \<open>raster\<close>
  (\<open>raster.hpp\<close>) and \<open>box2d\<close> are declared outside this header; the record is
  polymorphic in them, and what the header uses of them is passed as a parameter.
  An Isabelle name cannot end in an underscore, so the members \<open>mapping_\<close>, \<open>ctx_\<close>,
  \<open>geom_cont_\<close>, \<open>raster_\<close> and \<open>data_\<close> lose theirs and \<open>id_\<close> is \<open>feature_id\<close>; an
  \<open>int\<close> is a 32-bit word, read as signed by \<open>sint\<close>.
\<close>

type_synonym context_ptr = nat
type_synonym heap = "context_ptr \<Rightarrow> context"

datatype error = out_of_range

record ('v, 'g, 'r) feature_impl =
  feature_id :: "32 word"
  ctx :: context_ptr
  geom_cont :: "'g list"
  raster :: "'r option"
  data :: "'v list"

type_synonym ('v, 'g, 'r) state = "heap \<times> ('v, 'g, 'r) feature_impl"

text \<open>
  \<open>feature_impl(context_ptr const& ctx, int id)\<close>. \<open>data_(n)\<close> builds a vector of \<open>n\<close>
  default-constructed values; \<open>dflt\<close> is the default-constructed \<open>mapnik::value\<close>.
\<close>

definition feature_impl_ctor ::
  "'v \<Rightarrow> context_ptr \<Rightarrow> 32 word \<Rightarrow> heap \<Rightarrow> ('v, 'g, 'r) feature_impl" where
  "feature_impl_ctor dflt p ident h =
     \<lparr>feature_id = ident, ctx = p, geom_cont = [], raster = None,
      data = replicate (map_size (mapping (h p))) dflt\<rparr>"

text \<open>
  \<open>void put(key_type const& key, value const& val)\<close>. The result is the outcome together
  with the state the call leaves behind; \<open>Inl out_of_range\<close> is the
  \<open>std::out_of_range("Key doesn't exist")\<close> thrown. The template overload differs only in
  converting \<open>val\<close> to a \<open>value\<close> first.
\<close>

definition put ::
  "key_type \<Rightarrow> 'v \<Rightarrow> ('v, 'g, 'r) state \<Rightarrow> (error + unit) \<times> ('v, 'g, 'r) state" where
  "put key val s =
     (case s of (h, f) \<Rightarrow>
        (case map_find key (mapping (h (ctx f))) of
           Some slot \<Rightarrow>
             if slot < length (data f)
             then (Inr (), (h, f\<lparr>data := (data f)[slot := val]\<rparr>))
             else (Inl out_of_range, s)
         | None \<Rightarrow> (Inl out_of_range, s)))"

text \<open>\<open>bool has_key(key_type const& key) const\<close>\<close>

definition has_key :: "key_type \<Rightarrow> ('v, 'g, 'r) state \<Rightarrow> bool" where
  "has_key key s = (case s of (h, f) \<Rightarrow> map_find key (mapping (h (ctx f))) \<noteq> None)"

text \<open>\<open>value_type const& get(key_type const& key) const\<close>: a \<open>const\<close> member, no state is written.\<close>

definition get :: "key_type \<Rightarrow> ('v, 'g, 'r) state \<Rightarrow> error + 'v" where
  "get key s =
     (case s of (h, f) \<Rightarrow>
        (case map_find key (mapping (h (ctx f))) of
           Some slot \<Rightarrow>
             if slot < length (data f) then Inr (data f ! slot) else Inl out_of_range
         | None \<Rightarrow> Inl out_of_range))"

text \<open>\<open>std::size_t size() const\<close>\<close>

definition feature_size :: "('v, 'g, 'r) feature_impl \<Rightarrow> nat" where
  "feature_size f = length (data f)"

text \<open>
  \<open>std::string to_string() const\<close>. The loop visits the entries of the shared map from
  \<open>begin()\<close> to \<open>end()\<close> and reads \<open>data_[itr->second]\<close> without comparing the slot with
  \<open>data_.size()\<close>; \<open>std::vector::operator[]\<close> beyond the size is undefined behaviour, which
  is the result \<open>None\<close>. \<open>to_str\<close> is the \<open>operator<<\<close> of \<open>mapnik::value\<close>, and \<open>endl\<close> the
  line feed written by \<open>std::endl\<close>.
\<close>

definition endl :: string where
  "endl = [CHR 0x0A]"

fun to_string_loop :: "('v \<Rightarrow> string) \<Rightarrow> 'v list \<Rightarrow> (key_type \<times> nat) list \<Rightarrow> string \<Rightarrow> string option" where
  "to_string_loop to_str d [] ss = Some ss"
| "to_string_loop to_str d ((first, second) # itr) ss =
     (if second < length d
      then to_string_loop to_str d itr (ss @ ''  '' @ first @ '':'' @ to_str (d ! second) @ endl)
      else None)"

definition to_string :: "('v \<Rightarrow> string) \<Rightarrow> ('v, 'g, 'r) state \<Rightarrow> string option" where
  "to_string to_str s =
     (case s of (h, f) \<Rightarrow>
        (case to_string_loop to_str (data f) (mapping (h (ctx f))) (''Feature ('' @ endl) of
           Some ss \<Rightarrow> Some (ss @ '')'' @ endl)
         | None \<Rightarrow> None))"

text \<open>
  The reading of \<open>describe()\<close> in the specification, for comparison with \<open>to_string\<close>: one
  \<open>name: value\<close> line for each registered name whose slot lies within the value sequence,
  in registration order (ascending slot), the lines separated by line feeds.
\<close>

fun spec_join_lines :: "string list \<Rightarrow> string" where
  "spec_join_lines [] = []"
| "spec_join_lines [l] = l"
| "spec_join_lines (l # ls) = l @ endl @ spec_join_lines ls"

definition spec_describe :: "('v \<Rightarrow> string) \<Rightarrow> ('v, 'g, 'r) state \<Rightarrow> string" where
  "spec_describe to_str s =
     (case s of (h, f) \<Rightarrow>
        spec_join_lines
          (map (\<lambda>(name, slot). name @ '': '' @ to_str (data f ! slot))
             (filter (\<lambda>(name, slot). slot < length (data f))
                (sort_key snd (mapping (h (ctx f)))))))"

subsection \<open>Geometries and the envelope\<close>

text \<open>
  What \<open>envelope()\<close> uses of \<open>geometry_type\<close> and \<open>box2d<double>\<close>, neither of which this
  header defines: the default constructor of the box, the envelope of one geometry, the
  four accessors, \<open>init\<close> and \<open>expand_to_include\<close>. Both mutators return the updated box.
\<close>

record ('g, 'b, 'c) box_ops =
  box2d_ctor :: "'b"
  geom_envelope :: "'g \<Rightarrow> 'b"
  minx :: "'b \<Rightarrow> 'c"
  miny :: "'b \<Rightarrow> 'c"
  maxx :: "'b \<Rightarrow> 'c"
  maxy :: "'b \<Rightarrow> 'c"
  init :: "'b \<Rightarrow> 'c \<Rightarrow> 'c \<Rightarrow> 'c \<Rightarrow> 'c \<Rightarrow> 'b"
  expand_to_include :: "'b \<Rightarrow> 'b \<Rightarrow> 'b"

text \<open>\<open>void add_geometry(geometry_type * geom)\<close>\<close>

definition add_geometry :: "'g \<Rightarrow> ('v, 'g, 'r) feature_impl \<Rightarrow> ('v, 'g, 'r) feature_impl" where
  "add_geometry geom f = f\<lparr>geom_cont := geom_cont f @ [geom]\<rparr>"

text \<open>
  \<open>unsigned num_geometries() const\<close>: the \<open>std::size_t\<close> size of the collection converted
  to \<open>unsigned\<close>, a 32-bit word, so taken modulo \<open>2 ^ 32\<close>.
\<close>

definition num_geometries :: "('v, 'g, 'r) feature_impl \<Rightarrow> 32 word" where
  "num_geometries f = of_nat (length (geom_cont f))"

text \<open>
  \<open>geometry_type const& get_geometry(unsigned index) const\<close>: \<open>geom_cont_[index]\<close> is not
  range-checked; an index beyond the collection is undefined behaviour, here \<open>None\<close>.
\<close>

definition get_geometry :: "('v, 'g, 'r) feature_impl \<Rightarrow> 32 word \<Rightarrow> 'g option" where
  "get_geometry f index =
     (if unat index < length (geom_cont f) then Some (geom_cont f ! unat index) else None)"

text \<open>
  \<open>box2d<double> envelope() const\<close>. \<open>envelope_loop\<close> is the \<open>for\<close> loop, entered with the
  counter \<open>i\<close> and the box \<open>result\<close>.
\<close>

function envelope_loop ::
  "('g, 'b, 'c) box_ops \<Rightarrow> ('v, 'g, 'r) feature_impl \<Rightarrow> 32 word \<Rightarrow> 'b \<Rightarrow> 'b option" where
  "envelope_loop ops f i result =
     (if i < num_geometries f
      then (case get_geometry f i of
              None \<Rightarrow> None
            | Some geom \<Rightarrow>
                envelope_loop ops f (i + 1)
                  (if i = 0
                   then (let box = geom_envelope ops geom
                         in init ops result (minx ops box) (miny ops box) (maxx ops box) (maxy ops box))
                   else expand_to_include ops result (geom_envelope ops geom)))
      else Some result)"
  by pat_completeness auto
termination
proof (relation "measure (\<lambda>(ops, f, i, result). unat (num_geometries f) - unat i)")
  show "wf (measure (\<lambda>(ops, f, i, result). unat (num_geometries f) - unat i))"
    by simp
next
  fix ops :: "('g, 'b, 'c) box_ops" and f :: "('v, 'g, 'r) feature_impl"
    and i :: "32 word" and result :: 'b and geom :: 'g
  assume lt: "i < num_geometries f"
  then have "i \<noteq> - 1"
    by auto
  then have "1 + i \<noteq> 0"
    by (simp add: add_eq_0_iff)
  then have "unat (1 + i) = Suc (unat i)"
    by (rule unatSuc)
  then have "unat (i + 1) = Suc (unat i)"
    by (simp only: add.commute)
  moreover from lt have "unat i < unat (num_geometries f)"
    by (simp add: word_less_nat_alt)
  ultimately show "((ops, f, i + 1,
                     if i = 0
                     then let box = geom_envelope ops geom
                          in init ops result (minx ops box) (miny ops box) (maxx ops box) (maxy ops box)
                     else expand_to_include ops result (geom_envelope ops geom)),
                    (ops, f, i, result))
                   \<in> measure (\<lambda>(ops, f, i, result). unat (num_geometries f) - unat i)"
    by simp
qed

declare envelope_loop.simps [simp del]

definition envelope :: "('g, 'b, 'c) box_ops \<Rightarrow> ('v, 'g, 'r) feature_impl \<Rightarrow> 'b option" where
  "envelope ops f = envelope_loop ops f 0 (box2d_ctor ops)"

text \<open>
  What every context built from \<open>context_new\<close> by \<open>push\<close> satisfies: the map invariant, and
  every slot below the number of entries.
\<close>

definition context_inv :: "context \<Rightarrow> bool" where
  "context_inv c \<longleftrightarrow>
     map_inv (mapping c) \<and> (\<forall>e \<in> set (mapping c). snd e < map_size (mapping c))"

section \<open>Properties of the map and of \<open>push\<close>\<close>

lemma map_find_None_iff: "map_find k m = None \<longleftrightarrow> k \<notin> fst ` set m"
  by (induction m) (auto split: if_splits)

lemma map_find_Some_mem: "map_find k m = Some v \<Longrightarrow> (k, v) \<in> set m"
  by (induction m) (auto split: if_splits)

lemma map_inv_Cons: "map_inv ((k, v) # m) \<longleftrightarrow> (\<forall>k' \<in> fst ` set m. k < k') \<and> map_inv m"
  by (auto simp: map_inv_def)

lemma map_insert_present: "map_inv m \<Longrightarrow> map_find k m \<noteq> None \<Longrightarrow> map_insert (k, v) m = m"
proof (induction m)
  case Nil
  then show ?case by simp
next
  case (Cons e m)
  obtain k' v' where e: "e = (k', v')" by (cases e)
  show ?case
  proof (cases "k = k'")
    case True
    then show ?thesis by (simp add: e)
  next
    case False
    with Cons.prems e have "map_find k m \<noteq> None" by simp
    then have "k \<in> fst ` set m" by (simp add: map_find_None_iff)
    with Cons.prems e have "k' < k" by (auto simp: map_inv_Cons)
    moreover from Cons.prems e have "map_inv m" by (simp add: map_inv_Cons)
    ultimately show ?thesis using Cons.IH \<open>map_find k m \<noteq> None\<close> e by auto
  qed
qed

lemma set_map_insert_absent:
  "map_find k m = None \<Longrightarrow> set (map_insert (k, v) m) = insert (k, v) (set m)"
  by (induction m) (auto split: if_splits)

lemma length_map_insert_absent:
  "map_find k m = None \<Longrightarrow> length (map_insert (k, v) m) = Suc (length m)"
  by (induction m) (auto split: if_splits)

lemma map_find_insert_absent:
  "map_find k m = None \<Longrightarrow> map_find k' (map_insert (k, v) m) = (if k' = k then Some v else map_find k' m)"
  by (induction m) (auto split: if_splits)

lemma map_inv_insert: "map_inv m \<Longrightarrow> map_inv (map_insert (k, v) m)"
proof (cases "map_find k m")
  case None
  assume "map_inv m"
  with None show ?thesis
  proof (induction m)
    case Nil
    then show ?case by (simp add: map_inv_def)
  next
    case (Cons e m)
    obtain k' v' where e: "e = (k', v')" by (cases e)
    from Cons.prems e have ne: "k \<noteq> k'" and fm: "map_find k m = None" by (auto split: if_splits)
    from Cons.prems e have inv: "map_inv m" and lt: "\<forall>x \<in> fst ` set m. k' < x" by (auto simp: map_inv_Cons)
    show ?case
    proof (cases "k < k'")
      case True
      with Cons.prems e lt show ?thesis by (auto simp: map_inv_Cons)
    next
      case False
      with ne have "k' < k" by simp
      with False e lt Cons.IH[OF fm inv] fm show ?thesis
        by (auto simp: map_inv_Cons set_map_insert_absent)
    qed
  qed
next
  case (Some a)
  assume "map_inv m"
  with Some show ?thesis by (simp add: map_insert_present)
qed

lemma map_insert_eq_insort:
  "map_find k m = None \<Longrightarrow> map_insert (k, v) m = insort_key fst (k, v) m"
  by (induction m) (auto split: if_splits)

lemma push_present: "map_inv (mapping c) \<Longrightarrow> map_find name (mapping c) \<noteq> None \<Longrightarrow> push name c = c"
  by (simp add: push_def map_insert_present)

lemma map_find_push_other:
  assumes "map_inv (mapping c)" "k \<noteq> name"
  shows "map_find k (mapping (push name c)) = map_find k (mapping c)"
proof (cases "map_find name (mapping c)")
  case None
  with assms show ?thesis by (simp add: push_def map_find_insert_absent)
next
  case (Some a)
  with assms show ?thesis by (simp add: push_present)
qed

lemma map_find_push_absent:
  "map_find name (mapping c) = None \<Longrightarrow>
   map_find name (mapping (push name c)) = Some (context_size c)"
  by (simp add: push_def map_find_insert_absent context_size_def)

lemma context_size_push:
  "map_inv (mapping c) \<Longrightarrow>
   context_size (push name c) = (if map_find name (mapping c) = None then Suc (context_size c) else context_size c)"
  by (auto simp: push_present) (simp add: push_def context_size_def map_size_def length_map_insert_absent)

lemma map_inv_push: "map_inv (mapping c) \<Longrightarrow> map_inv (mapping (push name c))"
  by (simp add: push_def map_inv_insert)

lemma keys_push:
  "map_inv (mapping c) \<Longrightarrow> fst ` set (mapping (push name c)) = insert name (fst ` set (mapping c))"
proof (cases "map_find name (mapping c)")
  case None
  then show ?thesis by (simp add: push_def set_map_insert_absent)
next
  case (Some a)
  assume "map_inv (mapping c)"
  with Some have "push name c = c" by (simp add: push_present)
  moreover from Some have "name \<in> fst ` set (mapping c)" using map_find_None_iff[of name "mapping c"] by simp
  ultimately show ?thesis by auto
qed

lemma context_inv_new: "context_inv context_new"
  by (simp add: context_inv_def context_new_def map_inv_def)

lemma context_inv_push: "context_inv c \<Longrightarrow> context_inv (push name c)"
proof (cases "map_find name (mapping c)")
  case None
  assume inv: "context_inv c"
  have "\<forall>e \<in> set (mapping (push name c)). snd e < map_size (mapping (push name c))"
    using inv None
    by (auto simp: context_inv_def push_def set_map_insert_absent map_size_def length_map_insert_absent less_Suc_eq)
  with inv show ?thesis by (simp add: context_inv_def map_inv_push)
next
  case (Some a)
  assume "context_inv c"
  with Some show ?thesis by (simp add: context_inv_def push_present)
qed

lemma context_inv_push_all: "context_inv c \<Longrightarrow> context_inv (push_all names c)"
  by (induction names arbitrary: c) (simp_all add: context_inv_push)

lemma keys_push_all:
  "map_inv (mapping c) \<Longrightarrow>
   fst ` set (mapping (push_all names c)) = fst ` set (mapping c) \<union> set names"
  by (induction names arbitrary: c) (simp_all add: keys_push map_inv_push)

lemma map_find_push_all_other:
  "map_inv (mapping c) \<Longrightarrow> k \<notin> set names \<Longrightarrow>
   map_find k (mapping (push_all names c)) = map_find k (mapping c)"
  by (induction names arbitrary: c) (simp_all add: map_find_push_other map_inv_push)

lemma context_size_push_all:
  "map_inv (mapping c) \<Longrightarrow> distinct names \<Longrightarrow> set names \<inter> fst ` set (mapping c) = {} \<Longrightarrow>
   context_size (push_all names c) = context_size c + length names"
proof (induction names arbitrary: c)
  case Nil
  then show ?case by simp
next
  case (Cons name names)
  from Cons.prems have absent: "map_find name (mapping c) = None"
    by (simp add: map_find_None_iff)
  from Cons.prems have "set names \<inter> fst ` set (mapping (push name c)) = {}"
    by (auto simp: keys_push)
  with Cons.prems have "context_size (push_all names (push name c)) = context_size (push name c) + length names"
    by (intro Cons.IH) (simp_all add: map_inv_push)
  with Cons.prems absent show ?case by (simp add: context_size_push)
qed

lemma map_find_push_all_nth:
  "map_inv (mapping c) \<Longrightarrow> distinct names \<Longrightarrow> set names \<inter> fst ` set (mapping c) = {} \<Longrightarrow>
   i < length names \<Longrightarrow>
   map_find (names ! i) (mapping (push_all names c)) = Some (context_size c + i)"
proof (induction names arbitrary: c i)
  case Nil
  then show ?case by simp
next
  case (Cons name names)
  from Cons.prems have absent: "map_find name (mapping c) = None"
    by (simp add: map_find_None_iff)
  have inv': "map_inv (mapping (push name c))" using Cons.prems by (simp add: map_inv_push)
  from Cons.prems have disj: "set names \<inter> fst ` set (mapping (push name c)) = {}"
    by (auto simp: keys_push)
  show ?case
  proof (cases i)
    case 0
    from Cons.prems have "name \<notin> set names" by simp
    with inv' have "map_find name (mapping (push_all names (push name c))) = map_find name (mapping (push name c))"
      by (rule map_find_push_all_other)
    with absent 0 show ?thesis by (simp add: map_find_push_absent)
  next
    case (Suc j)
    with Cons.prems have "j < length names" "distinct names" by simp_all
    with inv' disj have "map_find (names ! j) (mapping (push_all names (push name c))) = Some (context_size (push name c) + j)"
      by (intro Cons.IH)
    with Suc absent Cons.prems show ?thesis by (simp add: context_size_push)
  qed
qed

lemma upt_shift: "[n ..< n + Suc l] = n # [Suc n ..< Suc n + l]"
  by (simp add: upt_conv_Cons del: upt_Suc)

lemma mapping_push_all_fold:
  "distinct names \<Longrightarrow> set names \<inter> fst ` set (mapping c) = {} \<Longrightarrow>
   mapping (push_all names c) =
     fold (insort_key fst) (zip names [map_size (mapping c) ..< map_size (mapping c) + length names]) (mapping c)"
proof (induction names arbitrary: c)
  case Nil
  then show ?case by simp
next
  case (Cons name names)
  let ?n = "map_size (mapping c)"
  from Cons.prems have absent: "map_find name (mapping c) = None"
    by (simp add: map_find_None_iff)
  then have m': "mapping (push name c) = insort_key fst (name, ?n) (mapping c)"
    by (simp add: push_def map_insert_eq_insort)
  from absent have n': "map_size (mapping (push name c)) = Suc ?n"
    by (simp add: push_def map_size_def length_map_insert_absent)
  from Cons.prems absent have disj: "set names \<inter> fst ` set (mapping (push name c)) = {}"
    by (auto simp: push_def set_map_insert_absent)
  from Cons.prems have "distinct names" by simp
  from Cons.IH[OF this disj]
  have "mapping (push_all names (push name c)) =
        fold (insort_key fst) (zip names [Suc ?n ..< Suc ?n + length names]) (mapping (push name c))"
    unfolding n' .
  then have "mapping (push_all names (push name c)) =
        fold (insort_key fst) (zip names [Suc ?n ..< Suc ?n + length names]) (insort_key fst (name, ?n) (mapping c))"
    unfolding m' .
  moreover have "[?n ..< ?n + length (name # names)] = ?n # [Suc ?n ..< Suc ?n + length names]"
    using upt_shift[of ?n "length names"] by simp
  ultimately show ?case by (simp del: upt_Suc)
qed

section \<open>Registration\<close>

text \<open>
  C3, as far as the code goes. After \<open>push\<close> of \<open>N\<close> distinct names on a fresh context,
  \<open>size()\<close> is \<open>N\<close> and the \<open>i\<close>-th name pushed has slot \<open>i\<close>; the traversal from
  \<open>begin()\<close> to \<open>end()\<close> yields these \<open>N\<close> pairs in ascending order of the names, which is
  the order of a \<open>std::map\<close>, not the order of registration.
\<close>

theorem push_all_distinct_entries:
  assumes "distinct names"
  shows "context_size (push_all names context_new) = length names \<and>
         (\<forall>i < length names. map_find (names ! i) (mapping (push_all names context_new)) = Some i) \<and>
         context_entries (push_all names context_new) = sort_key fst (zip names [0 ..< length names])"
proof -
  have inv: "map_inv (mapping context_new)" by (simp add: context_new_def map_inv_def)
  have disj: "set names \<inter> fst ` set (mapping context_new) = {}" by (simp add: context_new_def)
  have sz: "context_size context_new = 0" by (simp add: context_new_def context_size_def map_size_def)
  have 1: "context_size (push_all names context_new) = length names"
    using context_size_push_all[OF inv assms disj] sz by simp
  have 2: "\<forall>i < length names. map_find (names ! i) (mapping (push_all names context_new)) = Some i"
    using map_find_push_all_nth[OF inv assms disj] sz by simp
  have "inj_on fst (set (zip names [0 ..< length names]))"
    using assms by (auto simp: inj_on_def in_set_zip nth_eq_iff_index_eq)
  then have "sort_key fst (zip names [0 ..< length names]) = fold (insort_key fst) (zip names [0 ..< length names]) []"
    by (rule sort_key_conv_fold)
  with mapping_push_all_fold[OF assms disj]
  have 3: "context_entries (push_all names context_new) = sort_key fst (zip names [0 ..< length names])"
    by (simp add: context_entries_def context_new_def map_size_def)
  from 1 2 3 show ?thesis by simp
qed

theorem push_all_distinct_entries_witness:
  "distinct [''pop'', ''name''] \<and>
   context_size (push_all [''pop'', ''name''] context_new) = 2 \<and>
   map_find ''pop'' (mapping (push_all [''pop'', ''name''] context_new)) = Some 0 \<and>
   map_find ''name'' (mapping (push_all [''pop'', ''name''] context_new)) = Some 1 \<and>
   context_entries (push_all [''pop'', ''name''] context_new) = [(''name'', 1), (''pop'', 0)]"
  using push_all_distinct_entries [of "[''pop'', ''name'']"]
  by (simp add: push_def context_new_def map_size_def context_entries_def)

text \<open>
  C3 as stated fails: \<open>pop\<close> is registered before \<open>name\<close>, and the traversal yields \<open>name\<close>
  first.
\<close>

theorem registration_order_counterexample:
  "distinct [''pop'', ''name''] \<and>
   context_entries (push_all [''pop'', ''name''] context_new) \<noteq> zip [''pop'', ''name''] [0 ..< 2]"
  by (simp add: push_def context_new_def map_size_def context_entries_def upt_rec)

text \<open>
  C4, as far as the code goes. \<open>std::map::insert\<close> does not replace an entry: after \<open>push\<close>
  of a name that is present, the name has the slot it had before.
\<close>

theorem push_existing_keeps_slot:
  "map_inv (mapping c) \<Longrightarrow> map_find name (mapping c) = Some slot \<Longrightarrow>
   map_find name (mapping (push name c)) = Some slot"
  by (simp add: push_present)

theorem push_existing_keeps_slot_witness:
  "map_inv (mapping (push_all [''name'', ''pop''] context_new)) \<and>
   map_find ''name'' (mapping (push_all [''name'', ''pop''] context_new)) = Some 0 \<and>
   map_find ''name'' (mapping (push ''name'' (push_all [''name'', ''pop''] context_new))) = Some 0"
  using push_existing_keeps_slot [of "push_all [''name'', ''pop''] context_new" "''name''" 0]
  by (simp add: push_def context_new_def map_size_def map_inv_def)

text \<open>
  C4 as stated fails: \<open>name\<close> is present, the second \<open>push\<close> of it passes the pair
  \<open>(name, 2)\<close> to \<open>insert\<close>, and the entry of \<open>name\<close> is not overwritten with it.
\<close>

theorem push_overwrites_counterexample:
  "\<not> (map_find ''name'' (mapping (push_all [''name'', ''pop''] context_new)) \<noteq> None \<longrightarrow>
      map_find ''name'' (mapping (push ''name'' (push_all [''name'', ''pop''] context_new)))
        = Some (context_size (push_all [''name'', ''pop''] context_new)))"
  by (simp add: push_def context_new_def map_size_def context_size_def)

text \<open>
  C9. \<open>push\<close> of a name that is present leaves the context as it is: every entry, the
  traversal and \<open>size()\<close>.
\<close>

theorem push_existing_unchanged:
  "map_inv (mapping c) \<Longrightarrow> map_find name (mapping c) \<noteq> None \<Longrightarrow>
   push name c = c \<and>
   context_entries (push name c) = context_entries c \<and>
   context_size (push name c) = context_size c"
  by (simp add: push_present)

theorem push_existing_unchanged_witness:
  "map_inv (mapping (push_all [''name'', ''pop''] context_new)) \<and>
   map_find ''pop'' (mapping (push_all [''name'', ''pop''] context_new)) \<noteq> None \<and>
   push ''pop'' (push_all [''name'', ''pop''] context_new) = push_all [''name'', ''pop''] context_new \<and>
   context_size (push ''pop'' (push_all [''name'', ''pop''] context_new)) = 2"
  using push_existing_unchanged [of "push_all [''name'', ''pop''] context_new" "''pop''"]
  by (simp add: push_def context_new_def map_size_def map_inv_def context_size_def)

section \<open>The feature record\<close>

lemma map_inv_new: "map_inv (mapping context_new)"
  by (simp add: context_new_def map_inv_def)

lemma registered_slot:
  assumes "name \<in> set names"
  shows "\<exists>slot. map_find name (mapping (push_all names context_new)) = Some slot \<and>
           slot < context_size (push_all names context_new)"
proof -
  let ?c = "push_all names context_new"
  have "fst ` set (mapping ?c) = set names"
    using keys_push_all[OF map_inv_new, of names] by (simp add: context_new_def)
  with assms have "map_find name (mapping ?c) \<noteq> None"
    by (simp add: map_find_None_iff)
  then obtain slot where s: "map_find name (mapping ?c) = Some slot" by auto
  have "context_inv ?c" by (rule context_inv_push_all[OF context_inv_new])
  with map_find_Some_mem[OF s] have "slot < context_size ?c"
    by (auto simp: context_inv_def context_size_def)
  with s show ?thesis by blast
qed

lemma unregistered_absent:
  assumes "name \<notin> set names"
  shows "map_find name (mapping (push_all names context_new)) = None"
  using map_find_push_all_other[OF map_inv_new assms] by (simp add: context_new_def)

text \<open>
  C7. The constructed record has one value per entry of the context at that moment, each
  the default-constructed value, and the identifier and context it was given.
\<close>

theorem feature_impl_ctor_fields:
  "length (data (feature_impl_ctor dflt p ident h)) = context_size (h p) \<and>
   data (feature_impl_ctor dflt p ident h) = replicate (context_size (h p)) dflt \<and>
   feature_id (feature_impl_ctor dflt p ident h) = ident \<and>
   ctx (feature_impl_ctor dflt p ident h) = p"
  by (simp add: feature_impl_ctor_def context_size_def)

text \<open>
  C1. The context of the record was built by \<open>push\<close> calls on a fresh context and the record
  has the number of values its construction against this context gives. Then \<open>put\<close> of a
  registered name succeeds and a following \<open>get\<close> returns the value put; for a name that
  was not registered both throw \<open>out_of_range\<close>.
\<close>

theorem put_get_after_registration:
  assumes "h (ctx f) = push_all names context_new"
    and "length (data f) = length (data (feature_impl_ctor dflt (ctx f) ident h))"
  shows "(name \<in> set names \<longrightarrow>
            fst (put name v (h, f)) = Inr () \<and> get name (snd (put name v (h, f))) = Inr v) \<and>
         (name \<notin> set names \<longrightarrow>
            fst (put name v (h, f)) = Inl out_of_range \<and> get name (h, f) = Inl out_of_range)"
proof (intro conjI impI)
  assume "name \<in> set names"
  from registered_slot[OF this] assms
  obtain slot where s: "map_find name (mapping (h (ctx f))) = Some slot" "slot < length (data f)"
    by (auto simp: feature_impl_ctor_def context_size_def)
  then show "fst (put name v (h, f)) = Inr ()"
    by (simp add: put_def)
  from s show "get name (snd (put name v (h, f))) = Inr v"
    by (simp add: put_def get_def)
next
  assume "name \<notin> set names"
  with assms have a: "map_find name (mapping (h (ctx f))) = None"
    by (simp add: unregistered_absent)
  from a show "fst (put name v (h, f)) = Inl out_of_range" by (simp add: put_def)
  from a show "get name (h, f) = Inl out_of_range" by (simp add: get_def)
qed

theorem put_get_after_registration_witness:
  "fst (put ''pop'' (Inr 2000000 :: string + int)
          (\<lambda>_. push_all [''name'', ''pop''] context_new,
           feature_impl_ctor (Inl []) 0 1 (\<lambda>_. push_all [''name'', ''pop''] context_new)
             :: (string + int, unit, unit) feature_impl)) = Inr () \<and>
   get ''pop''
     (snd (put ''pop'' (Inr 2000000 :: string + int)
          (\<lambda>_. push_all [''name'', ''pop''] context_new,
           feature_impl_ctor (Inl []) 0 1 (\<lambda>_. push_all [''name'', ''pop''] context_new)
             :: (string + int, unit, unit) feature_impl))) = Inr (Inr 2000000) \<and>
   get ''missing''
     (\<lambda>_. push_all [''name'', ''pop''] context_new,
      feature_impl_ctor (Inl []) 0 1 (\<lambda>_. push_all [''name'', ''pop''] context_new)
        :: (string + int, unit, unit) feature_impl) = Inl out_of_range"
  using put_get_after_registration [where h = "\<lambda>_. push_all [''name'', ''pop''] context_new"
      and f = "feature_impl_ctor (Inl []) 0 1 (\<lambda>_. push_all [''name'', ''pop''] context_new)
                 :: (string + int, unit, unit) feature_impl"
      and names = "[''name'', ''pop'']" and dflt = "Inl []" and ident = 1
      and name = "''pop''" and v = "Inr 2000000"]
    put_get_after_registration [where h = "\<lambda>_. push_all [''name'', ''pop''] context_new"
      and f = "feature_impl_ctor (Inl []) 0 1 (\<lambda>_. push_all [''name'', ''pop''] context_new)
                 :: (string + int, unit, unit) feature_impl"
      and names = "[''name'', ''pop'']" and dflt = "Inl []" and ident = 1
      and name = "''missing''" and v = "Inr 2000000"]
  by (simp add: feature_impl_ctor_def)

text \<open>
  C2. \<open>put\<close> and \<open>get\<close> throw \<open>out_of_range\<close> exactly when the key is not in the shared map
  or its slot is not below the number of values; a \<open>put\<close> that throws leaves the whole
  state as it was. (\<open>get\<close> is \<open>const\<close> and writes nothing on either path.)
\<close>

theorem put_get_fail_iff:
  "(fst (put key val (h, f)) = Inl out_of_range \<longleftrightarrow>
      map_find key (mapping (h (ctx f))) = None \<or>
      (\<exists>slot. map_find key (mapping (h (ctx f))) = Some slot \<and> \<not> slot < length (data f))) \<and>
   (get key (h, f) = Inl out_of_range \<longleftrightarrow>
      map_find key (mapping (h (ctx f))) = None \<or>
      (\<exists>slot. map_find key (mapping (h (ctx f))) = Some slot \<and> \<not> slot < length (data f))) \<and>
   (fst (put key val (h, f)) = Inl out_of_range \<longrightarrow> snd (put key val (h, f)) = (h, f))"
  by (auto simp: put_def get_def split: option.splits)

theorem put_get_fail_iff_witness:
  "fst (put ''pop'' (5::int)
          ((\<lambda>_. context_new)(0 := push ''pop'' context_new),
           feature_impl_ctor 0 0 7 (\<lambda>_. context_new) :: (int, unit, unit) feature_impl))
     = Inl out_of_range \<and>
   snd (put ''pop'' (5::int)
          ((\<lambda>_. context_new)(0 := push ''pop'' context_new),
           feature_impl_ctor 0 0 7 (\<lambda>_. context_new) :: (int, unit, unit) feature_impl))
     = ((\<lambda>_. context_new)(0 := push ''pop'' context_new), feature_impl_ctor 0 0 7 (\<lambda>_. context_new))"
  using put_get_fail_iff [where key = "''pop''" and val = "5::int"
      and h = "(\<lambda>_. context_new)(0 := push ''pop'' context_new)"
      and f = "feature_impl_ctor 0 0 7 (\<lambda>_. context_new) :: (int, unit, unit) feature_impl"]
  by (simp add: push_def context_new_def map_size_def feature_impl_ctor_def put_def)

text \<open>
  C10. A \<open>put\<close> that returns has written the value into the slot of the key and nothing
  else: the other values, the number of values, the identifier, the geometries, the raster,
  the context pointer and the store of contexts are as before.
\<close>

theorem put_frame:
  assumes "put key val (h, f) = (Inr (), (h', f'))"
  shows "\<exists>slot. map_find key (mapping (h (ctx f))) = Some slot \<and> slot < length (data f) \<and>
           data f' = (data f)[slot := val] \<and>
           length (data f') = length (data f) \<and>
           (\<forall>i. i \<noteq> slot \<longrightarrow> data f' ! i = data f ! i) \<and>
           feature_id f' = feature_id f \<and> geom_cont f' = geom_cont f \<and>
           raster f' = raster f \<and> ctx f' = ctx f \<and> h' = h"
  using assms by (auto simp: put_def split: option.splits if_splits)

theorem put_frame_witness:
  "put ''pop'' (5::int)
     (\<lambda>_. push_all [''name'', ''pop''] context_new,
      \<lparr>feature_id = 7, ctx = 0, geom_cont = [()], raster = Some (), data = [1, 2]\<rparr>)
   = (Inr (), (\<lambda>_. push_all [''name'', ''pop''] context_new,
      \<lparr>feature_id = 7, ctx = 0, geom_cont = [()], raster = Some (), data = [1, 5]\<rparr>)) \<and>
   map_find ''pop'' (mapping (push_all [''name'', ''pop''] context_new)) = Some 1"
  using put_frame [where key = "''pop''" and val = "5::int"
      and h = "\<lambda>_. push_all [''name'', ''pop''] context_new"
      and f = "\<lparr>feature_id = 7, ctx = 0, geom_cont = [()], raster = Some (), data = [1, 2]\<rparr>"
      and h' = "\<lambda>_. push_all [''name'', ''pop''] context_new"
      and f' = "\<lparr>feature_id = 7, ctx = 0, geom_cont = [()], raster = Some (), data = [1, 5]\<rparr>"]
  by (simp add: push_def context_new_def map_size_def put_def)

text \<open>
  C8. \<open>has_key\<close> is true exactly for the keys of the shared map, whatever the number of
  values of the record. When a name is pushed after the record was constructed,
  \<open>has_key\<close> of it is true while \<open>get\<close> and \<open>put\<close> of it throw.
\<close>

theorem has_key_iff:
  fixes f :: "('v, 'g, 'r) feature_impl"
  shows
  "(has_key key (h, f) \<longleftrightarrow> key \<in> fst ` set (context_entries (h (ctx f)))) \<and>
   (map_find key (mapping (h p)) = None \<longrightarrow>
      has_key key (h(p := push key (h p)), feature_impl_ctor dflt p ident h :: ('v, 'g, 'r) feature_impl) \<and>
      get key (h(p := push key (h p)), feature_impl_ctor dflt p ident h :: ('v, 'g, 'r) feature_impl)
        = Inl out_of_range \<and>
      fst (put key v (h(p := push key (h p)), feature_impl_ctor dflt p ident h :: ('v, 'g, 'r) feature_impl))
        = Inl out_of_range)"
proof (intro conjI impI)
  show "has_key key (h, f) \<longleftrightarrow> key \<in> fst ` set (context_entries (h (ctx f)))"
    using map_find_None_iff[of key "mapping (h (ctx f))"]
    by (auto simp: has_key_def context_entries_def)
next
  assume a: "map_find key (mapping (h p)) = None"
  let ?h = "h(p := push key (h p))"
  let ?f = "feature_impl_ctor dflt p ident h :: ('v, 'g, 'r) feature_impl"
  have f: "map_find key (mapping (?h (ctx ?f))) = Some (context_size (h p))"
    using map_find_push_absent[OF a] by (simp add: feature_impl_ctor_def)
  have l: "length (data ?f) = context_size (h p)"
    by (simp add: feature_impl_ctor_def context_size_def)
  from f show "has_key key (?h, ?f)" by (simp add: has_key_def)
  from f l show "get key (?h, ?f) = Inl out_of_range" by (simp add: get_def)
  from f l show "fst (put key v (?h, ?f)) = Inl out_of_range" by (simp add: put_def)
qed

theorem has_key_iff_witness:
  "map_find ''pop'' (mapping ((\<lambda>_. context_new) (0::nat))) = None \<and>
   has_key ''pop'' ((\<lambda>_. context_new)(0 := push ''pop'' context_new),
           feature_impl_ctor 0 0 7 (\<lambda>_. context_new) :: (int, unit, unit) feature_impl) \<and>
   get ''pop'' ((\<lambda>_. context_new)(0 := push ''pop'' context_new),
           feature_impl_ctor 0 0 7 (\<lambda>_. context_new) :: (int, unit, unit) feature_impl)
     = Inl out_of_range \<and>
   fst (put ''pop'' 5 ((\<lambda>_. context_new)(0 := push ''pop'' context_new),
           feature_impl_ctor 0 0 7 (\<lambda>_. context_new) :: (int, unit, unit) feature_impl))
     = Inl out_of_range"
  using has_key_iff [where key = "''pop''" and h = "\<lambda>_. context_new" and p = 0 and dflt = "0::int"
      and ident = 7 and v = 5
      and f = "feature_impl_ctor 0 0 7 (\<lambda>_. context_new) :: (int, unit, unit) feature_impl"]
  by (simp add: context_new_def)

section \<open>\<open>to_string\<close>\<close>

lemma to_string_loop_in_range:
  "\<forall>e \<in> set m. snd e < length d \<Longrightarrow>
   to_string_loop to_str d m ss =
     Some (ss @ concat (map (\<lambda>(name, slot). ''  '' @ name @ '':'' @ to_str (d ! slot) @ endl) m))"
  by (induction m arbitrary: ss) auto

text \<open>
  Where the shared map has an entry whose slot is not below the number of values, the loop
  reads beyond the vector.
\<close>

lemma to_string_loop_out_of_range:
  "\<exists>e \<in> set m. \<not> snd e < length d \<Longrightarrow> to_string_loop to_str d m ss = None"
  by (induction m arbitrary: ss) fastforce+

text \<open>
  So it is for a record constructed on an empty context onto which \<open>pop\<close> is pushed
  afterwards: \<open>to_string\<close> does not skip \<open>pop\<close>.
\<close>

lemma to_string_grown_context:
  "to_string (\<lambda>x. x)
     ((\<lambda>_. context_new)(0 := push ''pop'' context_new),
      feature_impl_ctor [] 0 7 (\<lambda>_. context_new) :: (string, unit, unit) feature_impl) = None"
  by (simp add: push_def context_new_def map_size_def feature_impl_ctor_def to_string_def)

text \<open>
  C5, as far as the code goes. For a record whose context was built by \<open>push\<close> calls on a
  fresh context and which has at least as many values as the context has entries,
  \<open>to_string\<close> writes the line \<open>Feature (\<close>, then for each entry of the context, in ascending
  order of the names, a line of two spaces, the name, a colon and the value, then the line
  \<open>)\<close>. The names written are the names registered.
\<close>

theorem to_string_lines:
  assumes "h (ctx f) = push_all names context_new"
    and "context_size (h (ctx f)) \<le> length (data f)"
  shows "to_string to_str (h, f) =
           Some (''Feature ('' @ endl @
                 concat (map (\<lambda>(name, slot). ''  '' @ name @ '':'' @ to_str (data f ! slot) @ endl)
                           (context_entries (h (ctx f)))) @
                 '')'' @ endl) \<and>
         sorted_wrt (<) (map fst (context_entries (h (ctx f)))) \<and>
         fst ` set (context_entries (h (ctx f))) = set names"
proof -
  have inv: "context_inv (h (ctx f))"
    using assms(1) context_inv_push_all[OF context_inv_new] by simp
  with assms(2) have "\<forall>e \<in> set (mapping (h (ctx f))). snd e < length (data f)"
    by (auto simp: context_inv_def context_size_def)
  from to_string_loop_in_range[OF this]
  have 1: "to_string to_str (h, f) =
           Some (''Feature ('' @ endl @
                 concat (map (\<lambda>(name, slot). ''  '' @ name @ '':'' @ to_str (data f ! slot) @ endl)
                           (context_entries (h (ctx f)))) @
                 '')'' @ endl)"
    by (simp add: to_string_def context_entries_def)
  from inv have 2: "sorted_wrt (<) (map fst (context_entries (h (ctx f))))"
    by (simp add: context_inv_def map_inv_def context_entries_def)
  have 3: "fst ` set (context_entries (h (ctx f))) = set names"
    using keys_push_all[OF map_inv_new, of names] assms(1)
    by (simp add: context_entries_def context_new_def)
  from 1 2 3 show ?thesis by simp
qed

theorem to_string_lines_witness:
  "to_string (\<lambda>x. x)
     (\<lambda>_. push_all [''pop'', ''name''] context_new,
      \<lparr>feature_id = 1, ctx = 0, geom_cont = ([] :: unit list), raster = (None :: unit option),
       data = [''2000000'', ''Paris'']\<rparr>)
   = Some ''Feature (\<newline>  name:Paris\<newline>  pop:2000000\<newline>)\<newline>''"
  using to_string_lines [where h = "\<lambda>_. push_all [''pop'', ''name''] context_new"
      and f = "\<lparr>feature_id = 1, ctx = 0, geom_cont = ([] :: unit list), raster = (None :: unit option),
                data = [''2000000'', ''Paris'']\<rparr>"
      and names = "[''pop'', ''name'']" and to_str = "\<lambda>x. x"]
  by (simp add: push_def context_new_def map_size_def context_size_def context_entries_def endl_def)

text \<open>
  C5 as stated fails. \<open>pop\<close> is registered before \<open>name\<close> and both slots are in range; the
  text written has a first and a last line of its own, the line of \<open>name\<close> before the line
  of \<open>pop\<close>, and no space after the colon.
\<close>

theorem describe_counterexample:
  "to_string (\<lambda>x. x)
     (\<lambda>_. push_all [''pop'', ''name''] context_new,
      \<lparr>feature_id = 1, ctx = 0, geom_cont = ([] :: unit list), raster = (None :: unit option),
       data = [''2000000'', ''Paris'']\<rparr>)
   \<noteq> Some (spec_describe (\<lambda>x. x)
     (\<lambda>_. push_all [''pop'', ''name''] context_new,
      \<lparr>feature_id = 1, ctx = 0, geom_cont = ([] :: unit list), raster = (None :: unit option),
       data = [''2000000'', ''Paris'']\<rparr>)) \<and>
   to_string (\<lambda>x. x)
     (\<lambda>_. push_all [''pop'', ''name''] context_new,
      \<lparr>feature_id = 1, ctx = 0, geom_cont = ([] :: unit list), raster = (None :: unit option),
       data = [''2000000'', ''Paris'']\<rparr>)
   = Some ''Feature (\<newline>  name:Paris\<newline>  pop:2000000\<newline>)\<newline>'' \<and>
   spec_describe (\<lambda>x. x)
     (\<lambda>_. push_all [''pop'', ''name''] context_new,
      \<lparr>feature_id = 1, ctx = 0, geom_cont = ([] :: unit list), raster = (None :: unit option),
       data = [''2000000'', ''Paris'']\<rparr>)
   = ''pop: 2000000\<newline>name: Paris''"
  by (simp add: push_def context_new_def map_size_def to_string_def endl_def spec_describe_def)

section \<open>\<open>envelope\<close>\<close>

lemma unat_num_geometries:
  "length (geom_cont f) < 2 ^ 32 \<Longrightarrow> unat (num_geometries f) = length (geom_cont f)"
  by (simp add: num_geometries_def unat_of_nat)

lemma unat_inc_below:
  fixes i n :: "32 word"
  assumes "i < n"
  shows "unat (i + 1) = Suc (unat i)"
proof -
  from assms have "i \<noteq> - 1" by auto
  then have "1 + i \<noteq> 0" by (simp add: add_eq_0_iff)
  then have "unat (1 + i) = Suc (unat i)" by (rule unatSuc)
  then show ?thesis by (simp only: add.commute)
qed

text \<open>The loop from a counter \<open>i > 0\<close> on: the remaining geometries are folded into the box.\<close>

lemma envelope_loop_rest:
  "length (geom_cont f) < 2 ^ 32 \<Longrightarrow> 0 < unat i \<Longrightarrow> unat i \<le> length (geom_cont f) \<Longrightarrow>
   envelope_loop ops f i result =
     Some (foldl (\<lambda>result geom. expand_to_include ops result (geom_envelope ops geom))
             result (drop (unat i) (geom_cont f)))"
proof (induction ops f i result rule: envelope_loop.induct)
  case (1 ops f i result)
  let ?step = "\<lambda>result geom. expand_to_include ops result (geom_envelope ops geom)"
  let ?gs = "geom_cont f"
  have n: "unat (num_geometries f) = length ?gs"
    using "1.prems"(1) by (rule unat_num_geometries)
  show ?case
  proof (cases "i < num_geometries f")
    case True
    then have lt: "unat i < length ?gs"
      using n by (simp add: word_less_nat_alt)
    then have g: "get_geometry f i = Some (?gs ! unat i)"
      by (simp add: get_geometry_def)
    from True have inc: "unat (i + 1) = Suc (unat i)"
      by (rule unat_inc_below)
    from "1.prems"(2) have nz: "i \<noteq> 0"
      by auto
    have "envelope_loop ops f (i + 1) (?step result (?gs ! unat i)) =
          Some (foldl ?step (?step result (?gs ! unat i)) (drop (unat (i + 1)) ?gs))"
      using "1.IH"[OF True g] "1.prems"(1) lt inc nz by simp
    moreover have "drop (unat i) ?gs = ?gs ! unat i # drop (Suc (unat i)) ?gs"
      using lt by (simp add: Cons_nth_drop_Suc)
    ultimately show ?thesis
      using True g nz inc by (subst envelope_loop.simps) simp
  next
    case False
    then have "length ?gs \<le> unat i"
      using n by (simp add: word_less_nat_alt)
    with "1.prems"(3) have "drop (unat i) ?gs = []"
      by simp
    with False show ?thesis
      by (subst envelope_loop.simps) simp
  qed
qed

text \<open>
  C6. For a record with fewer than \<open>2 ^ 32\<close> geometries (the range of the \<open>unsigned\<close>
  counter), \<open>envelope\<close> returns: with no geometry, the default-constructed box; otherwise
  the box initialised from the envelope of the first geometry and expanded by the
  envelope of each later one, in order.
\<close>

theorem envelope_fold:
  assumes "length (geom_cont f) < 2 ^ 32"
  shows "envelope ops f =
           Some (case geom_cont f of
                   [] \<Rightarrow> box2d_ctor ops
                 | g # gs \<Rightarrow>
                     foldl (\<lambda>result geom. expand_to_include ops result (geom_envelope ops geom))
                       (init ops (box2d_ctor ops)
                          (minx ops (geom_envelope ops g)) (miny ops (geom_envelope ops g))
                          (maxx ops (geom_envelope ops g)) (maxy ops (geom_envelope ops g)))
                       gs)"
proof (cases "geom_cont f")
  case Nil
  then have "num_geometries f = 0"
    by (simp add: num_geometries_def)
  with Nil show ?thesis
    by (simp add: envelope_def envelope_loop.simps)
next
  case (Cons g gs)
  have n: "unat (num_geometries f) = length (geom_cont f)"
    using assms by (rule unat_num_geometries)
  with Cons have pos: "0 < num_geometries f"
    by (simp add: word_less_nat_alt)
  from Cons have g0: "get_geometry f 0 = Some g"
    by (simp add: get_geometry_def)
  let ?r = "init ops (box2d_ctor ops)
              (minx ops (geom_envelope ops g)) (miny ops (geom_envelope ops g))
              (maxx ops (geom_envelope ops g)) (maxy ops (geom_envelope ops g))"
  have "envelope_loop ops f 1 ?r =
        Some (foldl (\<lambda>result geom. expand_to_include ops result (geom_envelope ops geom))
                ?r (drop (unat (1 :: 32 word)) (geom_cont f)))"
    using assms Cons by (intro envelope_loop_rest) simp_all
  moreover have "envelope ops f = envelope_loop ops f 1 ?r"
    using pos g0 by (simp add: envelope_def envelope_loop.simps[of ops f 0] Let_def)
  ultimately show ?thesis
    using Cons by simp
qed

theorem envelope_fold_witness:
  "length [(0, 0, 1, 1), (2, 2, 3, 3) :: int \<times> int \<times> int \<times> int] < 2 ^ 32 \<and>
   envelope
     \<lparr>box2d_ctor = (0, 0, - 1, - 1 :: int), geom_envelope = (\<lambda>g. g),
      minx = (\<lambda>(x0, y0, x1, y1). x0), miny = (\<lambda>(x0, y0, x1, y1). y0),
      maxx = (\<lambda>(x0, y0, x1, y1). x1), maxy = (\<lambda>(x0, y0, x1, y1). y1),
      init = (\<lambda>b x0 y0 x1 y1. (x0, y0, x1, y1)),
      expand_to_include = (\<lambda>(x0, y0, x1, y1) (a0, b0, a1, b1).
         (min x0 a0, min y0 b0, max x1 a1, max y1 b1))\<rparr>
     \<lparr>feature_id = 1, ctx = 0,
      geom_cont = [(0, 0, 1, 1), (2, 2, 3, 3) :: int \<times> int \<times> int \<times> int],
      raster = (None :: unit option), data = ([] :: unit list)\<rparr>
   = Some (0, 0, 3, 3)"
  using envelope_fold [where f = "\<lparr>feature_id = 1, ctx = 0,
      geom_cont = [(0, 0, 1, 1), (2, 2, 3, 3) :: int \<times> int \<times> int \<times> int],
      raster = (None :: unit option), data = ([] :: unit list)\<rparr>"
    and ops = "\<lparr>box2d_ctor = (0, 0, - 1, - 1 :: int), geom_envelope = (\<lambda>g. g),
      minx = (\<lambda>(x0, y0, x1, y1). x0), miny = (\<lambda>(x0, y0, x1, y1). y0),
      maxx = (\<lambda>(x0, y0, x1, y1). x1), maxy = (\<lambda>(x0, y0, x1, y1). y1),
      init = (\<lambda>b x0 y0 x1 y1. (x0, y0, x1, y1)),
      expand_to_include = (\<lambda>(x0, y0, x1, y1) (a0, b0, a1, b1).
         (min x0 a0, min y0 b0, max x1 a1, max y1 b1))\<rparr>"]
  by simp

end
